theory Spec2Isabelle
  imports Main "HOL-Library.Multiset" "HOL-Library.Sublist" "HOL-Library.AList"
begin

section \<open>Data model of the bundle catalog\<close>

text \<open>
  The script \<^verbatim>\<open>scripts/retrieve_databundle_light.py\<close> works on a catalog of data bundles,
  a Python dict from bundle name to a dict of fields. A dict keeps its insertion order,
  which the selection relies on, so it is an association list here; \<open>keys\<close> are the keys
  in iteration order and \<open>getitem d k\<close> is \<^verbatim>\<open>d[k]\<close>.
\<close>

text \<open>
  The exceptions the modelled code raises itself, and \<open>OSError\<close> for a failure of a
  collaborator. All are of class \<^verbatim>\<open>Exception\<close>. Log records are part of the model only where a
  property is about them: the error record of the loader and the records of the download
  loop.
\<close>

datatype exn = KeyError | NameError | TypeError | AttributeError | OSError

text \<open>
  A value under \<^verbatim>\<open>urls\<close>: a URL string, the dict of the \<^verbatim>\<open>post\<close> source (its \<^verbatim>\<open>url\<close>
  entry and the post arguments) or the list of region suffixes of the hydrobasins source.
\<close>

datatype url_entry = Url string | PostData "(string \<times> string) list" | Suffixes "string list"

text \<open>
  One entry of the catalog, with the keys of the configuration file as fields. The keys
  every entry has are plain fields; \<^verbatim>\<open>tutorial\<close>, \<^verbatim>\<open>unzip\<close> and \<^verbatim>\<open>disable_by_opt\<close> may be
  absent. \<^verbatim>\<open>matched_countries\<close> and \<^verbatim>\<open>n_matched\<close> are the two fields the selection writes
  before it reads them. In the functions below the arguments \<^verbatim>\<open>category\<close> and \<^verbatim>\<open>tutorial\<close> of
  the source are called \<open>cat\<close> and \<open>tut\<close>, the field names being taken.
\<close>

record config_bundle =
  countries :: "string list"
  tutorial :: "bool option"
  category :: string
  destination :: string
  urls :: "(string \<times> url_entry) list"
  unzip :: "bool option"
  "output" :: "string list"
  disable_by_opt :: "(string \<times> string list) list option"
  matched_countries :: "string list"
  n_matched :: nat

type_synonym catalog = "(string \<times> config_bundle) list"

type_synonym enable = "(string \<times> bool) list"

definition keys :: "('k \<times> 'v) list \<Rightarrow> 'k list" where
  "keys d = map fst d"

text \<open>
  \<^verbatim>\<open>d[k]\<close> for a key of \<open>d\<close>. The selection reads the catalog only at names it has just
  enumerated from the same catalog, where the KeyError of a missing key cannot occur.
\<close>

definition getitem :: "('k \<times> 'v) list \<Rightarrow> 'k \<Rightarrow> 'v" where
  "getitem d k = the (map_of d k)"

text \<open>\<^verbatim>\<open>config_bundles[bname].get("tutorial", False)\<close>\<close>

definition get_tutorial :: "config_bundle \<Rightarrow> bool" where
  "get_tutorial b = (case tutorial b of None \<Rightarrow> False | Some v \<Rightarrow> v)"

text \<open>\<^verbatim>\<open>config_enable.get(optname, False)\<close>, read as a truth value.\<close>

definition enabled :: "enable \<Rightarrow> string \<Rightarrow> bool" where
  "enabled config_enable optname =
     (case map_of config_enable optname of None \<Rightarrow> False | Some v \<Rightarrow> v)"

text \<open>
  \<^verbatim>\<open>list(set(xs))\<close> enumerates the distinct elements of \<open>xs\<close> in the iteration order of a
  Python set of strings, which the language leaves open (it follows the string hashes of the
  running process). The order is a parameter \<open>ls\<close> of every function that builds such a list;
  \<open>set_listing ls\<close> says that \<open>ls\<close> is such an enumeration.
\<close>

definition set_listing :: "(string list \<Rightarrow> string list) \<Rightarrow> bool" where
  "set_listing ls = (\<forall>xs. set (ls xs) = set xs \<and> distinct (ls xs))"

section \<open>The option gate\<close>

text \<open>
  The inner statement of the merge loop of \<^verbatim>\<open>_check_disabled_by_opt\<close>:
  \<^verbatim>\<open>if out not in all_disabled: all_disabled.append(out)\<close>
\<close>

definition append_unique :: "string list \<Rightarrow> string \<Rightarrow> string list" where
  "append_unique all_disabled out =
     (if out \<notin> set all_disabled then all_disabled @ [out] else all_disabled)"

definition check_disabled_by_opt ::
  "(string list \<Rightarrow> string list) \<Rightarrow> config_bundle \<Rightarrow> enable \<Rightarrow> string list" where
  "check_disabled_by_opt ls config_bundle config_enable =
     (case disable_by_opt config_bundle of
        None \<Rightarrow> []
      | Some disabled_config \<Rightarrow>
          (let disabled_objs =
                 [disabled_outputs. (optname, disabled_outputs) \<leftarrow> disabled_config,
                    enabled config_enable optname];
               all_disabled = foldl (foldl append_unique) [] disabled_objs
           in if ''all'' \<in> set all_disabled then [''all'']
              else if ''output'' \<in> set (keys config_enable) then ls all_disabled
              else []))"

section \<open>Selection of the bundles of one category\<close>

text \<open>
  The loop over \<^verbatim>\<open>dict_sort\<close>, with its two variables \<^verbatim>\<open>remaining_countries\<close> and
  \<^verbatim>\<open>returned_bundles\<close>. The list \<^verbatim>\<open>current_matched_countries\<close> is written and never read.
\<close>

fun pick_bundles ::
  "catalog \<Rightarrow> (string \<times> nat) list \<Rightarrow> string set \<Rightarrow> string list \<Rightarrow> string list" where
  "pick_bundles config_bundles [] remaining_countries returned_bundles = returned_bundles"
| "pick_bundles config_bundles (d_val # rest) remaining_countries returned_bundles =
     (let bname = fst d_val;
          cbundle_list = set (countries (getitem config_bundles bname));
          intersect = cbundle_list \<inter> remaining_countries
      in if intersect \<noteq> {}
         then pick_bundles config_bundles rest (remaining_countries - intersect)
                (returned_bundles @ [bname])
         else pick_bundles config_bundles rest remaining_countries returned_bundles)"

text \<open>The dict comprehension \<^verbatim>\<open>dict_n_matched\<close>, as its items in insertion order.\<close>

definition dict_n_matched ::
  "(string list \<Rightarrow> string list) \<Rightarrow> string \<Rightarrow> catalog \<Rightarrow> bool \<Rightarrow> enable \<Rightarrow> (string \<times> nat) list" where
  "dict_n_matched ls cat config_bundles tut config_enable =
     [(bname, n_matched (getitem config_bundles bname)).
        bname \<leftarrow> keys config_bundles,
        category (getitem config_bundles bname) = cat
        \<and> get_tutorial (getitem config_bundles bname) = tut
        \<and> check_disabled_by_opt ls (getitem config_bundles bname) config_enable \<noteq> [''all'']]"

text \<open>
  \<^verbatim>\<open>sorted(dict_n_matched.items(), key=lambda d: d[1])\<close>: Python's sort is stable, and so is
  \<open>sort_key\<close>.
\<close>

definition get_best_bundles_by_category ::
  "(string list \<Rightarrow> string list) \<Rightarrow> string list \<Rightarrow> string \<Rightarrow> catalog \<Rightarrow> bool \<Rightarrow> enable
     \<Rightarrow> string list" where
  "get_best_bundles_by_category ls country_list cat config_bundles tut config_enable =
     (let d = dict_n_matched ls cat config_bundles tut config_enable
      in if d \<noteq> []
         then (let dict_sort = sort_key snd d
               in pick_bundles config_bundles dict_sort (set country_list) [])
         else [])"

section \<open>Selection over all categories\<close>

text \<open>
  The first loop of \<^verbatim>\<open>get_best_bundles\<close> writes two fields of every bundle, in place; a
  country that the bundle lists twice counts twice in \<^verbatim>\<open>n_matched\<close>.
\<close>

definition annotate :: "string list \<Rightarrow> config_bundle \<Rightarrow> config_bundle" where
  "annotate country_list b =
     b\<lparr>matched_countries := [c \<leftarrow> countries b. c \<in> set country_list],
       n_matched := length [c \<leftarrow> countries b. c \<in> set country_list]\<rparr>"

definition identify_matched :: "string list \<Rightarrow> catalog \<Rightarrow> catalog" where
  "identify_matched country_list config_bundles =
     map (\<lambda>(bname, b). (bname, annotate country_list b)) config_bundles"

text \<open>The body of the loop over the categories.\<close>

definition extend_selection ::
  "(string list \<Rightarrow> string list) \<Rightarrow> string list \<Rightarrow> catalog \<Rightarrow> bool \<Rightarrow> enable
     \<Rightarrow> string list \<Rightarrow> string \<Rightarrow> string list" where
  "extend_selection ls country_list config_bundles tut config_enable bundles_to_download cat =
     (let selection_bundles =
            get_best_bundles_by_category ls country_list cat config_bundles tut config_enable
      in if selection_bundles \<noteq> [] then bundles_to_download @ selection_bundles
         else bundles_to_download)"

text \<open>
  \<^verbatim>\<open>get_best_bundles\<close> returns the list of names and leaves the catalog annotated: the
  result is the pair of both.
\<close>

definition get_best_bundles ::
  "(string list \<Rightarrow> string list) \<Rightarrow> string list \<Rightarrow> catalog \<Rightarrow> bool \<Rightarrow> enable
     \<Rightarrow> string list \<times> catalog" where
  "get_best_bundles ls country_list config_bundles tut config_enable =
     (let categories =
            ls [category (getitem config_bundles conf). conf \<leftarrow> keys config_bundles];
          config_bundles' = identify_matched country_list config_bundles
      in (foldl (extend_selection ls country_list config_bundles' tut config_enable)
            [] categories,
          config_bundles'))"

section \<open>Loading the catalog\<close>

text \<open>
  The argument of \<^verbatim>\<open>load_databundle_config\<close> is any Python value. The values told apart
  here are a string (taken as a path), a dict of bundles, \<^verbatim>\<open>None\<close>, a number and a list of
  strings. The collaborators are parameters: \<open>load_yaml path\<close> stands for
  \<^verbatim>\<open>yaml.load(open(path))["databundles"]\<close>, the value found or the exception raised, and
  \<open>create_country_list\<close> for the helper of that name called with \<^verbatim>\<open>iso_coding=False\<close>.
\<close>

datatype config_arg =
  ArgStr string | ArgDict catalog | ArgNone | ArgInt int | ArgList "string list"

datatype log_record = LogError string

text \<open>
  The loop \<^verbatim>\<open>for bundle_name in config: config[bundle_name]["countries"] = ...\<close> on whatever
  \<open>config\<close> is by then. \<^verbatim>\<open>None\<close> and a number are not iterable; the first element of a
  non-empty string or list of strings is a string, which indexes neither; an empty string or
  list runs the loop zero times.
\<close>

definition parse_countries ::
  "(string list \<Rightarrow> string list) \<Rightarrow> config_arg \<Rightarrow> exn + config_arg" where
  "parse_countries create_country_list config =
     (case config of
        ArgDict d \<Rightarrow>
          Inr (ArgDict (map (\<lambda>(bundle_name, b).
                              (bundle_name, b\<lparr>countries := create_country_list (countries b)\<rparr>)) d))
      | ArgStr s \<Rightarrow> (if s = [] then Inr config else Inl TypeError)
      | ArgList l \<Rightarrow> (if l = [] then Inr config else Inl TypeError)
      | ArgNone \<Rightarrow> Inl TypeError
      | ArgInt i \<Rightarrow> Inl TypeError)"

text \<open>The result is the error log written and the value returned or the exception raised.\<close>

definition load_databundle_config ::
  "(string list \<Rightarrow> string list) \<Rightarrow> (string \<Rightarrow> exn + config_arg) \<Rightarrow> config_arg
     \<Rightarrow> log_record list \<times> (exn + config_arg)" where
  "load_databundle_config create_country_list load_yaml config =
     (case config of
        ArgStr path \<Rightarrow>
          (case load_yaml path of
             Inl e \<Rightarrow> ([], Inl e)
           | Inr loaded \<Rightarrow> ([], parse_countries create_country_list loaded))
      | ArgDict d \<Rightarrow> ([], parse_countries create_country_list config)
      | _ \<Rightarrow> ([LogError ''Impossible to load the databundle configuration''],
               parse_countries create_country_list config))"

section \<open>Retrieval from one source\<close>

text \<open>
  The file system and the network are a state \<open>'w\<close>. A collaborator that changes it is an
  action: it returns the exception it raised, if any, and the state it left. The record
  \<open>env\<close> holds the collaborators the two retrieval functions modelled here call:
  \<^verbatim>\<open>os.path.join\<close>, \<^verbatim>\<open>os.path.basename\<close>, \<^verbatim>\<open>os.path.exists\<close>, \<^verbatim>\<open>os.remove\<close>,
  \<^verbatim>\<open>progress_retrieve(url, file, data=..., disable_progress=...)\<close>,
  \<^verbatim>\<open>gdd.download_file_from_google_drive(file_id, dest_path, showsize)\<close>,
  \<^verbatim>\<open>ZipFile(file).extractall(path)\<close>, and \<^verbatim>\<open>str\<close> on a value that is not a string.
\<close>

type_synonym 'w action = "'w \<Rightarrow> exn option \<times> 'w"

record 'w env =
  path_join :: "string \<Rightarrow> string \<Rightarrow> string"
  basename :: "string \<Rightarrow> string"
  path_exists :: "string \<Rightarrow> 'w \<Rightarrow> bool"
  os_remove :: "string \<Rightarrow> 'w action"
  progress_retrieve ::
    "string \<Rightarrow> string \<Rightarrow> (string \<times> string) list option \<Rightarrow> bool \<Rightarrow> 'w action"
  gdd_download :: "string \<Rightarrow> string \<Rightarrow> bool \<Rightarrow> 'w action"
  extractall :: "string \<Rightarrow> string \<Rightarrow> 'w action"
  py_repr :: "url_entry \<Rightarrow> string"

text \<open>Two statements in sequence: an exception of the first skips the second.\<close>

definition seq :: "'w action \<Rightarrow> 'w action \<Rightarrow> 'w action" where
  "seq a b w = (case a w of (None, w') \<Rightarrow> b w' | (Some e, w') \<Rightarrow> (Some e, w'))"

definition skip :: "'w action" where
  "skip w = (None, w)"

text \<open>\<^verbatim>\<open>if os.path.exists(file_path): os.remove(file_path)\<close>\<close>

definition remove_if_exists :: "'w env \<Rightarrow> string \<Rightarrow> 'w action" where
  "remove_if_exists env file_path w =
     (if path_exists env file_path w then os_remove env file_path w else skip w)"

text \<open>\<^verbatim>\<open>config.get("unzip", False)\<close>\<close>

definition get_unzip :: "config_bundle \<Rightarrow> bool" where
  "get_unzip config = (case unzip config of None \<Rightarrow> False | Some v \<Rightarrow> v)"

definition py_str :: "'w env \<Rightarrow> url_entry \<Rightarrow> string" where
  "py_str env v = (case v of Url u \<Rightarrow> u | _ \<Rightarrow> py_repr env v)"

text \<open>A backslash or a slash, the two characters of the pattern \<^verbatim>\<open>\\|/\<close>.\<close>

definition is_sep :: "char \<Rightarrow> bool" where
  "is_sep c = (c = CHR 0x5C \<or> c = CHR ''/'')"

text \<open>
  \<^verbatim>\<open>re.split(r"/view|\\view", s, 1)\<close>: the text before and after the leftmost occurrence of
  a separator followed by \<^verbatim>\<open>view\<close>, or the whole string alone when there is none.
\<close>

fun split_view :: "string \<Rightarrow> string list" where
  "split_view [] = [[]]"
| "split_view (c # cs) =
     (if is_sep c \<and> take 4 cs = ''view'' then [[], drop 4 cs]
      else (case split_view cs of [] \<Rightarrow> [] | before # after \<Rightarrow> (c # before) # after))"

text \<open>\<^verbatim>\<open>re.split(r"\\|/", s)\<close>: the pieces between the separators.\<close>

fun split_seps :: "string \<Rightarrow> string list" where
  "split_seps [] = [[]]"
| "split_seps (c # cs) =
     (if is_sep c then [] # split_seps cs
      else (case split_seps cs of [] \<Rightarrow> [] | piece # pieces \<Rightarrow> (c # piece) # pieces))"

text \<open>
  A retrieval function receives the dict of one bundle by reference. Its result here is
  the value returned or the exception raised, that dict as the call leaves it, and the
  state of the world.
\<close>

type_synonym 'w download = "(exn + bool) \<times> config_bundle \<times> 'w"

text \<open>The end of a body with no \<^verbatim>\<open>try\<close>: \<^verbatim>\<open>return True\<close>, or the exception goes on.\<close>

definition finish :: "config_bundle \<Rightarrow> exn option \<times> 'w \<Rightarrow> 'w download" where
  "finish config r =
     (case r of (None, w') \<Rightarrow> (Inr True, config, w') | (Some e, w') \<Rightarrow> (Inl e, config, w'))"

text \<open>
  \<^verbatim>\<open>download_and_unzip_gdrive\<close>. The name \<^verbatim>\<open>host\<close> of its last branch is no parameter and
  no local variable: Python looks it up among the module's globals when the branch runs.
  \<open>g_host\<close> is that binding, \<open>None\<close> when the module has none. The only statement that binds
  it is the \<^verbatim>\<open>for host in host_list\<close> of the script's main block.
\<close>

definition download_and_unzip_gdrive ::
  "'w env \<Rightarrow> string option \<Rightarrow> config_bundle \<Rightarrow> string \<Rightarrow> bool \<Rightarrow> bool \<Rightarrow> 'w \<Rightarrow> 'w download" where
  "download_and_unzip_gdrive env g_host config rootpath hot_run disable_progress w =
     (let file_path = path_join env rootpath ''tempfile.zip''
      in case map_of (urls config) ''gdrive'' of
           None \<Rightarrow> (Inl KeyError, config, w)
         | Some url \<Rightarrow>
             (let partition_view = split_view (py_str env url)
              in if length partition_view < 2 then (Inr False, config, w)
                 else (let code_split = split_seps (partition_view ! 0)
                       in if length code_split < 2 then (Inr False, config, w)
                          else (let file_id = last code_split
                                in if hot_run
                                   then finish config
                                          (seq (remove_if_exists env file_path)
                                            (seq (gdd_download env file_id file_path
                                                    (\<not> disable_progress))
                                               (extractall env file_path (destination config)))
                                            w)
                                   else (case g_host of
                                           None \<Rightarrow> (Inl NameError, config, w)
                                         | Some host \<Rightarrow> (Inr False, config, w))))))"

text \<open>
  \<^verbatim>\<open>download_and_unzip_post\<close>. \<^verbatim>\<open>postdata = config["urls"]["post"]\<close> is the dict inside the
  bundle, not a copy, so \<^verbatim>\<open>postdata.pop("url")\<close> removes the entry from the bundle. A string
  has no \<^verbatim>\<open>pop\<close> and a list's \<^verbatim>\<open>pop\<close> takes no string.
\<close>

definition download_and_unzip_post ::
  "'w env \<Rightarrow> config_bundle \<Rightarrow> string \<Rightarrow> bool \<Rightarrow> bool \<Rightarrow> 'w \<Rightarrow> 'w download" where
  "download_and_unzip_post env config rootpath hot_run disable_progress w =
     (case map_of (urls config) ''post'' of
        None \<Rightarrow> (Inl KeyError, config, w)
      | Some (Url u) \<Rightarrow> (Inl AttributeError, config, w)
      | Some (Suffixes l) \<Rightarrow> (Inl TypeError, config, w)
      | Some (PostData d) \<Rightarrow>
          (case map_of d ''url'' of
             None \<Rightarrow> (Inl KeyError, config, w)
           | Some url \<Rightarrow>
               (let postdata = AList.delete ''url'' d;
                    config' = config\<lparr>urls :=
                                AList.update ''post'' (PostData postdata) (urls config)\<rparr>;
                    file_path = path_join env (destination config') (basename env url)
                in if hot_run
                   then finish config'
                          (seq (remove_if_exists env file_path)
                            (seq (progress_retrieve env url file_path (Some postdata)
                                    disable_progress)
                               (if get_unzip config'
                                then seq (extractall env file_path (destination config'))
                                       (os_remove env file_path)
                                else skip))
                            w)
                   else (Inr True, config', w))))"

section \<open>The download loop\<close>

text \<open>
  The loop of the main block over \<^verbatim>\<open>bundles_to_download\<close>. Its state is the catalog, the
  world and a trace. \<open>Attempt b h r\<close> records that the \<^verbatim>\<open>try\<close> block for host \<open>h\<close> of bundle
  \<open>b\<close> ended with \<open>r\<close>: the value the retrieval function returned, or the exception that
  \<^verbatim>\<open>except Exception\<close> caught and logged as a warning. \<open>Failed b\<close> is the error record
  \<^verbatim>\<open>Bundle b cannot be downloaded\<close>.

  \<^verbatim>\<open>globals()[f"download_and_unzip_{host}"]\<close> is the parameter \<open>module_globals\<close>, the functions
  of the module by name; a name it does not hold raises KeyError inside the \<^verbatim>\<open>try\<close>. The
  functions are called with \<^verbatim>\<open>hot_run\<close> left at its default. None of them adds or removes a
  key of \<^verbatim>\<open>urls\<close> (the \<^verbatim>\<open>post\<close> function changes the dict under the key \<^verbatim>\<open>post\<close>), so the hosts
  iterated are the keys of \<^verbatim>\<open>urls\<close> as they are when the bundle's turn comes.
\<close>

datatype event = Attempt string string "exn + bool" | Failed string

record 'w run_state =
  bundles :: catalog
  world :: 'w
  trace :: "event list"

type_synonym 'w downloader = "config_bundle \<Rightarrow> string \<Rightarrow> bool \<Rightarrow> 'w \<Rightarrow> 'w download"

text \<open>
  The inner loop \<^verbatim>\<open>for host in host_list\<close>; the first component of the result is
  \<^verbatim>\<open>downloaded_bundle\<close> when the loop is left.
\<close>

fun try_hosts ::
  "(string \<Rightarrow> 'w downloader option) \<Rightarrow> string \<Rightarrow> bool \<Rightarrow> string \<Rightarrow> string list
     \<Rightarrow> 'w run_state \<Rightarrow> bool \<times> 'w run_state" where
  "try_hosts module_globals rootpath disable_progress b_name [] s = (False, s)"
| "try_hosts module_globals rootpath disable_progress b_name (host # host_list) s =
     (case module_globals (''download_and_unzip_'' @ host) of
        None \<Rightarrow>
          try_hosts module_globals rootpath disable_progress b_name host_list
            (s\<lparr>trace := trace s @ [Attempt b_name host (Inl KeyError)]\<rparr>)
      | Some download_and_unzip \<Rightarrow>
          (case download_and_unzip (getitem (bundles s) b_name) rootpath disable_progress
                  (world s) of
             (r, config', w') \<Rightarrow>
               (let s' = s\<lparr>bundles := AList.update b_name config' (bundles s), world := w',
                            trace := trace s @ [Attempt b_name host r]\<rparr>
                in if r = Inr True then (True, s')
                   else try_hosts module_globals rootpath disable_progress b_name host_list s')))"

fun download_loop ::
  "(string \<Rightarrow> 'w downloader option) \<Rightarrow> string \<Rightarrow> bool \<Rightarrow> string list \<Rightarrow> 'w run_state
     \<Rightarrow> 'w run_state" where
  "download_loop module_globals rootpath disable_progress [] s = s"
| "download_loop module_globals rootpath disable_progress (b_name # rest) s =
     (let host_list = keys (urls (getitem (bundles s) b_name))
      in case try_hosts module_globals rootpath disable_progress b_name host_list s of
           (downloaded_bundle, s') \<Rightarrow>
             download_loop module_globals rootpath disable_progress rest
               (if \<not> downloaded_bundle then s'\<lparr>trace := trace s' @ [Failed b_name]\<rparr> else s'))"

section \<open>The specification's side\<close>

text \<open>
  Step 2d of the specification's selector, in its words: keep \<open>remaining\<close>; for each
  candidate in order take \<open>intersect\<close>, the candidate's countries within \<open>remaining\<close>; when it
  is not empty the candidate is chosen and \<open>intersect\<close> leaves \<open>remaining\<close>; when it is empty
  the candidate is passed over and the next one is looked at.
\<close>

fun spec_cover :: "(string \<Rightarrow> string set) \<Rightarrow> string list \<Rightarrow> string set \<Rightarrow> string list" where
  "spec_cover cov [] remaining = []"
| "spec_cover cov (c # cs) remaining =
     (let intersect = cov c \<inter> remaining
      in if intersect \<noteq> {} then c # spec_cover cov cs (remaining - intersect)
         else spec_cover cov cs remaining)"

text \<open>
  The specification's option gate, in its words: the disabled-output lists of the options
  of \<^verbatim>\<open>disable_by_opt\<close> that are active are united, and the bundle is fully disabled when
  \<^verbatim>\<open>all\<close> is in the union; a bundle with no \<^verbatim>\<open>disable_by_opt\<close> is never disabled.
\<close>

definition spec_is_fully_disabled :: "config_bundle \<Rightarrow> enable \<Rightarrow> bool" where
  "spec_is_fully_disabled b active_options =
     (case disable_by_opt b of
        None \<Rightarrow> False
      | Some d \<Rightarrow>
          ''all'' \<in> set (concat [outs. (optname, outs) \<leftarrow> d, enabled active_options optname]))"

text \<open>The attempts a trace records for one bundle, in order: host and outcome.\<close>

fun attempts_of :: "string \<Rightarrow> event list \<Rightarrow> (string \<times> (exn + bool)) list" where
  "attempts_of b [] = []"
| "attempts_of b (Attempt b' h r # evs) =
     (if b' = b then (h, r) # attempts_of b evs else attempts_of b evs)"
| "attempts_of b (Failed b' # evs) = attempts_of b evs"

text \<open>
  What the fallback policy asks of the attempts \<open>att\<close> made for a bundle with the declared
  hosts \<open>hosts\<close>: the hosts tried are the first ones of the declaration, in its order; no
  attempt but the last returned \<^verbatim>\<open>True\<close>; a bundle marked failed had every host tried and
  none returned \<^verbatim>\<open>True\<close>; a bundle not marked failed ends on an attempt that returned
  \<^verbatim>\<open>True\<close>.
\<close>

definition sources_tried ::
  "string list \<Rightarrow> (string \<times> (exn + bool)) list \<Rightarrow> bool \<Rightarrow> bool" where
  "sources_tried hosts att failed =
     (map fst att = take (length att) hosts
      \<and> Inr True \<notin> set (butlast (map snd att))
      \<and> (if failed then length att = length hosts \<and> Inr True \<notin> set (map snd att)
         else att \<noteq> [] \<and> snd (last att) = Inr True))"

section \<open>Sample catalogs and collaborators\<close>

definition mk_bundle :: "string list \<Rightarrow> string \<Rightarrow> bool option \<Rightarrow> config_bundle" where
  "mk_bundle cs cat tut =
     \<lparr>countries = cs, tutorial = tut, category = cat, destination = ''data'',
      urls = [(''zenodo'', Url ''https://zenodo.org/record/1/files/bundle.zip'')],
      unzip = None, output = [], disable_by_opt = None,
      matched_countries = [], n_matched = 0\<rparr>"

text \<open>The two bundles of the specification's first sample scenario, in both orders.\<close>

definition common_africa :: config_bundle where
  "common_africa = mk_bundle [''DZ'', ''EG'', ''MA''] ''common'' (Some False)"

definition common_europe :: config_bundle where
  "common_europe = mk_bundle [''DE'', ''FR''] ''common'' (Some False)"

definition catalog_africa_first :: catalog where
  "catalog_africa_first =
     [(''common_africa'', common_africa), (''common_europe'', common_europe)]"

definition catalog_europe_first :: catalog where
  "catalog_europe_first =
     [(''common_europe'', common_europe), (''common_africa'', common_africa)]"

definition tutorial_bundle :: config_bundle where
  "tutorial_bundle = mk_bundle [''NG'', ''MA''] ''common'' (Some True)"

definition catalog_with_tutorial :: catalog where
  "catalog_with_tutorial =
     [(''common_africa'', common_africa), (''tutorial_data'', tutorial_bundle),
      (''common_europe'', common_europe)]"

definition cutouts_africa :: config_bundle where
  "cutouts_africa = mk_bundle [''MA'', ''NG''] ''cutouts'' None"

definition catalog_two_categories :: catalog where
  "catalog_two_categories =
     [(''common_africa'', common_africa), (''cutouts_africa'', cutouts_africa)]"

definition cutouts_disabled :: config_bundle where
  "cutouts_disabled =
     (mk_bundle [''MA'', ''NG''] ''cutouts'' None)
       \<lparr>disable_by_opt := Some [(''build_cutout'', [''all''])]\<rparr>"

definition catalog_with_disabled :: catalog where
  "catalog_with_disabled =
     [(''common_africa'', common_africa), (''cutouts_africa'', cutouts_disabled)]"

text \<open>Two enumerations of the distinct elements of a list.\<close>

definition rev_listing :: "string list \<Rightarrow> string list" where
  "rev_listing xs = rev (remdups xs)"

text \<open>
  A small world: the list of files on disk. Retrieval fails for the URLs and file ids of
  \<open>down\<close> and writes the file otherwise; extraction and removal need the file.
\<close>

definition sample_env :: "string list \<Rightarrow> (string list) env" where
  "sample_env down =
     \<lparr>path_join = (\<lambda>a b. a @ ''/'' @ b),
      basename = (\<lambda>p. last (split_seps p)),
      path_exists = (\<lambda>f w. f \<in> set w),
      os_remove = (\<lambda>f w. if f \<in> set w then (None, removeAll f w) else (Some OSError, w)),
      progress_retrieve =
        (\<lambda>url f data dp w. if url \<in> set down then (Some OSError, w) else (None, f # w)),
      gdd_download =
        (\<lambda>file_id f showsize w.
           if file_id \<in> set down then (Some OSError, w) else (None, f # w)),
      extractall =
        (\<lambda>f dest w.
           if f \<in> set w then (None, (dest @ ''/unzipped'') # w) else (Some OSError, w)),
      py_repr = (\<lambda>v. [])\<rparr>"

text \<open>
  A module namespace with the two retrieval functions modelled here, as the main block
  calls them: \<^verbatim>\<open>hot_run\<close> at its default and \<^verbatim>\<open>host\<close> bound by the loop.
\<close>

definition sample_globals :: "string list \<Rightarrow> string \<Rightarrow> (string list) downloader option" where
  "sample_globals down name =
     (if name = ''download_and_unzip_gdrive''
      then Some (\<lambda>config rootpath disable_progress.
                  download_and_unzip_gdrive (sample_env down) (Some ''gdrive'') config rootpath
                    True disable_progress)
      else if name = ''download_and_unzip_post''
      then Some (\<lambda>config rootpath disable_progress.
                  download_and_unzip_post (sample_env down) config rootpath True
                    disable_progress)
      else None)"

definition with_urls :: "(string \<times> url_entry) list \<Rightarrow> config_bundle" where
  "with_urls us = (mk_bundle [''MA''] ''data'' None)\<lparr>urls := us\<rparr>"

definition post_bundle :: config_bundle where
  "post_bundle =
     with_urls
       [(''post'', PostData [(''url'', ''https://a.example/q/gadm.zip''), (''fmt'', ''shp'')]),
        (''gdrive'', Url ''https://drive.google.com/file/d/1AbC/view?usp=sharing'')]"

definition post_bundle_popped :: config_bundle where
  "post_bundle_popped =
     with_urls
       [(''post'', PostData [(''fmt'', ''shp'')]),
        (''gdrive'', Url ''https://drive.google.com/file/d/1AbC/view?usp=sharing'')]"

definition broken_bundle :: config_bundle where
  "broken_bundle =
     with_urls [(''gdrive'', Url ''https://drive.google.com/file/d/1AbC''),
                (''suffixes'', Suffixes [''af'', ''eu''])]"

definition gdrive_bundle :: config_bundle where
  "gdrive_bundle = with_urls [(''gdrive'', Url ''https://drive.google.com/file/d/9xYz/view'')]"

definition sample_run :: "(string list) run_state" where
  "sample_run =
     \<lparr>bundles = [(''bundle_a'', post_bundle), (''bundle_b'', broken_bundle),
                 (''bundle_c'', gdrive_bundle)],
      world = [], trace = []\<rparr>"

section \<open>Lemmas on the selection\<close>

lemmas eval_defs = get_best_bundles_def keys_def getitem_def identify_matched_def annotate_def
  extend_selection_def get_best_bundles_by_category_def dict_n_matched_def get_tutorial_def
  check_disabled_by_opt_def enabled_def append_unique_def Let_def

lemmas sample_defs = catalog_europe_first_def catalog_africa_first_def
  catalog_with_tutorial_def catalog_two_categories_def catalog_with_disabled_def
  common_europe_def common_africa_def tutorial_bundle_def cutouts_africa_def
  cutouts_disabled_def mk_bundle_def

lemma pick_bundles_no_countries:
  "pick_bundles config_bundles ds {} acc = acc"
  by (induction ds arbitrary: acc) simp_all

lemma by_category_no_countries:
  "get_best_bundles_by_category ls [] cat config_bundles tut config_enable = []"
  by (simp add: get_best_bundles_by_category_def Let_def pick_bundles_no_countries)

lemma foldl_extend_no_countries:
  "foldl (extend_selection ls [] config_bundles tut config_enable) acc cats = acc"
  by (induction cats arbitrary: acc)
     (simp_all add: extend_selection_def by_category_no_countries)

text \<open>The loop with its accumulator is the specification's recursion.\<close>

lemma pick_bundles_cover:
  "pick_bundles cfg ds R acc =
     acc @ spec_cover (\<lambda>b. set (countries (getitem cfg b))) (map fst ds) R"
  by (induction ds arbitrary: R acc) (simp_all add: Let_def)

lemma spec_cover_subseq: "subseq (spec_cover cov cs R) cs"
  by (induction cs arbitrary: R) (auto simp: Let_def)

lemma spec_cover_set: "set (spec_cover cov cs R) \<subseteq> set cs"
  by (induction cs arbitrary: R) (auto simp: Let_def)

text \<open>
  In closed form: the candidate at position \<open>i\<close> is chosen exactly when it covers a requested
  country that no candidate before it covers.
\<close>

lemma spec_cover_closed:
  "spec_cover cov cs R =
     map (\<lambda>i. cs ! i)
       (filter (\<lambda>i. cov (cs ! i) \<inter> (R - \<Union>(cov ` set (take i cs))) \<noteq> {}) [0..<length cs])"
proof (induction cs arbitrary: R)
  case Nil
  then show ?case by simp
next
  case (Cons c cs)
  define P where "P = (\<lambda>R cs i. cov (cs ! i) \<inter> (R - \<Union>(cov ` set (take i cs))) \<noteq> {})"
  have up: "[0..<length (c # cs)] = 0 # map Suc [0..<length cs]"
    by (simp add: upt_conv_Cons map_Suc_upt del: upt_Suc)
  have P0: "P R (c # cs) 0 \<longleftrightarrow> cov c \<inter> R \<noteq> {}"
    by (simp add: P_def)
  have PS: "P R (c # cs) (Suc i) \<longleftrightarrow> P (R - cov c) cs i" for i
  proof -
    have "R - \<Union>(cov ` set (take (Suc i) (c # cs))) = (R - cov c) - \<Union>(cov ` set (take i cs))"
      by auto
    then show ?thesis by (simp add: P_def)
  qed
  have tl: "map (\<lambda>i. (c # cs) ! i) (filter (P R (c # cs)) (map Suc [0..<length cs]))
             = spec_cover cov cs (R - cov c)"
  proof -
    have "filter (P R (c # cs)) (map Suc [0..<length cs])
            = map Suc (filter (P (R - cov c) cs) [0..<length cs])"
      by (simp add: filter_map o_def PS)
    moreover have "spec_cover cov cs (R - cov c)
            = map (\<lambda>i. cs ! i) (filter (P (R - cov c) cs) [0..<length cs])"
      unfolding P_def by (rule Cons.IH)
    ultimately show ?thesis by (simp add: o_def)
  qed
  have rem: "R - cov c \<inter> R = R - cov c" by blast
  have "spec_cover cov (c # cs) R
          = map (\<lambda>i. (c # cs) ! i) (filter (P R (c # cs)) [0..<length (c # cs)])"
  proof (cases "cov c \<inter> R = {}")
    case True
    then have "R - cov c = R" by blast
    with True tl show ?thesis
      unfolding up by (simp add: P0)
  next
    case False
    with tl show ?thesis
      unfolding up by (simp add: P0 rem)
  qed
  then show ?case by (simp add: P_def)
qed

lemma by_category_cover:
  "get_best_bundles_by_category ls country_list cat cfg tut en =
     spec_cover (\<lambda>b. set (countries (getitem cfg b)))
       (map fst (sort_key snd (dict_n_matched ls cat cfg tut en))) (set country_list)"
  by (simp add: get_best_bundles_by_category_def Let_def pick_bundles_cover)

lemma foldl_extend_concat:
  "foldl (extend_selection ls cl cfg tut en) acc cats =
     acc @ concat (map (\<lambda>cat. get_best_bundles_by_category ls cl cat cfg tut en) cats)"
  by (induction cats arbitrary: acc) (simp_all add: extend_selection_def Let_def)

lemma concat_if_filter:
  "concat (map (\<lambda>x. if P x then [f x] else []) xs) = map f (filter P xs)"
  by (induction xs) simp_all

lemma dict_n_matched_filter:
  "dict_n_matched ls cat cfg tut en =
     map (\<lambda>bname. (bname, n_matched (getitem cfg bname)))
       (filter (\<lambda>bname. category (getitem cfg bname) = cat
                  \<and> get_tutorial (getitem cfg bname) = tut
                  \<and> check_disabled_by_opt ls (getitem cfg bname) en \<noteq> [''all''])
          (keys cfg))"
  unfolding dict_n_matched_def by (rule concat_if_filter)

lemma dict_n_matched_iff:
  "(n, m) \<in> set (dict_n_matched ls cat cfg tut en) \<longleftrightarrow>
     n \<in> set (keys cfg) \<and> m = n_matched (getitem cfg n) \<and> category (getitem cfg n) = cat
     \<and> get_tutorial (getitem cfg n) = tut
     \<and> check_disabled_by_opt ls (getitem cfg n) en \<noteq> [''all'']"
  by (auto simp: dict_n_matched_def)

lemma by_category_sub:
  assumes "n \<in> set (get_best_bundles_by_category ls cl cat cfg tut en)"
  shows "(n, n_matched (getitem cfg n)) \<in> set (dict_n_matched ls cat cfg tut en)"
proof -
  from assms have "n \<in> set (map fst (sort_key snd (dict_n_matched ls cat cfg tut en)))"
    using spec_cover_set unfolding by_category_cover by blast
  then obtain m where "(n, m) \<in> set (dict_n_matched ls cat cfg tut en)" by auto
  then show ?thesis by (auto simp: dict_n_matched_iff)
qed

lemma keys_identify_matched: "keys (identify_matched cl cfg) = keys cfg"
  by (induction cfg) (auto simp: identify_matched_def keys_def)

lemma getitem_identify_matched:
  "n \<in> set (keys cfg) \<Longrightarrow> getitem (identify_matched cl cfg) n = annotate cl (getitem cfg n)"
  by (induction cfg) (auto simp: identify_matched_def keys_def getitem_def)

lemma select_concat:
  "fst (get_best_bundles ls cl cfg tut en) =
     concat (map (\<lambda>cat. get_best_bundles_by_category ls cl cat (identify_matched cl cfg) tut en)
       (ls (map (\<lambda>conf. category (getitem cfg conf)) (keys cfg))))"
  by (simp add: get_best_bundles_def Let_def foldl_extend_concat)

lemma select_member:
  assumes "n \<in> set (fst (get_best_bundles ls cl cfg tut en))"
  shows "n \<in> set (keys cfg) \<and> get_tutorial (getitem cfg n) = tut
         \<and> check_disabled_by_opt ls (getitem cfg n) en \<noteq> [''all'']"
proof -
  from assms obtain cat where
    "n \<in> set (get_best_bundles_by_category ls cl cat (identify_matched cl cfg) tut en)"
    unfolding select_concat by auto
  from by_category_sub[OF this] have k: "n \<in> set (keys cfg)"
    and t: "get_tutorial (getitem (identify_matched cl cfg) n) = tut"
    and d: "check_disabled_by_opt ls (getitem (identify_matched cl cfg) n) en \<noteq> [''all'']"
    by (auto simp: dict_n_matched_iff keys_identify_matched)
  from k t d show ?thesis
    by (simp add: getitem_identify_matched annotate_def get_tutorial_def
          check_disabled_by_opt_def)
qed

text \<open>The merge loop of the option gate collects the union of the lists.\<close>

lemma foldl_append_unique: "set (foldl append_unique acc outs) = set acc \<union> set outs"
  by (induction outs arbitrary: acc) (auto simp: append_unique_def)

lemma foldl_merge: "set (foldl (foldl append_unique) acc objs) = set acc \<union> set (concat objs)"
  by (induction objs arbitrary: acc) (auto simp: foldl_append_unique)

lemma listing_singleton: "set_listing ls \<Longrightarrow> ls xs = [x] \<Longrightarrow> x \<in> set xs"
  by (metis list.set_intros(1) set_listing_def)

lemma fully_disabled_imp:
  "spec_is_fully_disabled b en \<Longrightarrow> check_disabled_by_opt ls b en = [''all'']"
  by (auto simp: spec_is_fully_disabled_def check_disabled_by_opt_def Let_def foldl_merge
           split: option.splits)

lemma check_all_imp:
  assumes "set_listing ls" "check_disabled_by_opt ls b en = [''all'']"
  shows "spec_is_fully_disabled b en"
proof (cases "disable_by_opt b")
  case None
  with assms show ?thesis by (simp add: check_disabled_by_opt_def)
next
  case (Some d)
  let ?objs = "[outs. (optname, outs) \<leftarrow> d, enabled en optname]"
  let ?all = "foldl (foldl append_unique) [] ?objs"
  have "''all'' \<in> set ?all"
  proof (rule ccontr)
    assume n: "''all'' \<notin> set ?all"
    with assms(2) Some have "ls ?all = [''all'']"
      by (auto simp: check_disabled_by_opt_def Let_def split: if_splits)
    from listing_singleton[OF assms(1) this] n show False by simp
  qed
  with Some show ?thesis by (simp add: spec_is_fully_disabled_def foldl_merge)
qed

lemma check_disabled_iff:
  "set_listing ls \<Longrightarrow>
   check_disabled_by_opt ls b en = [''all''] \<longleftrightarrow> spec_is_fully_disabled b en"
  using check_all_imp fully_disabled_imp by blast

text \<open>What does and what does not depend on the iteration order of a set.\<close>

lemma set_listing_remdups: "set_listing remdups"
  by (simp add: set_listing_def)

lemma set_listing_rev_listing: "set_listing rev_listing"
  by (simp add: set_listing_def rev_listing_def)

lemma dict_n_matched_listing:
  assumes "set_listing ls1" "set_listing ls2"
  shows "dict_n_matched ls1 cat cfg tut en = dict_n_matched ls2 cat cfg tut en"
  unfolding dict_n_matched_filter
  using check_disabled_iff[OF assms(1)] check_disabled_iff[OF assms(2)] by simp

lemma by_category_listing:
  assumes "set_listing ls1" "set_listing ls2"
  shows "get_best_bundles_by_category ls1 cl cat cfg tut en
         = get_best_bundles_by_category ls2 cl cat cfg tut en"
  unfolding by_category_cover dict_n_matched_listing[OF assms] ..

lemma mset_concat_map:
  "mset (concat (map f zs)) = sum_mset (image_mset (\<lambda>x. mset (f x)) (mset zs))"
  by (induction zs) simp_all

lemma listing_mset:
  assumes "set_listing ls1" "set_listing ls2"
  shows "mset (ls1 xs) = mset (ls2 xs)"
proof -
  from assms have "distinct (ls1 xs)" "distinct (ls2 xs)" "set (ls1 xs) = set (ls2 xs)"
    by (simp_all add: set_listing_def)
  then show ?thesis by (simp add: set_eq_iff_mset_eq_distinct)
qed

lemma listing_one_value:
  assumes "set_listing ls" "set xs = {x}"
  shows "ls xs = [x]"
proof -
  from assms have d: "distinct (ls xs)" and s: "set (ls xs) = {x}"
    by (simp_all add: set_listing_def)
  from d have "length (ls xs) = card (set (ls xs))" by (simp add: distinct_card)
  with s have "length (ls xs) = 1" by simp
  then obtain y where "ls xs = [y]" by (cases "ls xs") auto
  with s show ?thesis by simp
qed

text \<open>The sort is stable: bundles with the same \<^verbatim>\<open>n_matched\<close> stay in catalog order.\<close>

lemma ties_keep_catalog_order:
  "subseq (filter (\<lambda>b. n_matched (getitem cfg b) = k)
             (get_best_bundles_by_category ls cl cat cfg tut en))
          (keys cfg)"
proof -
  let ?d = "dict_n_matched ls cat cfg tut en"
  let ?P = "\<lambda>b. n_matched (getitem cfg b) = k"
  have snd_fst: "\<And>e. e \<in> set ?d \<Longrightarrow> snd e = n_matched (getitem cfg (fst e))"
    by (auto simp: dict_n_matched_filter)
  have "filter ?P (map fst (sort_key snd ?d))
          = map fst (filter (\<lambda>e. ?P (fst e)) (sort_key snd ?d))"
    by (simp add: filter_map o_def)
  also have "filter (\<lambda>e. ?P (fst e)) (sort_key snd ?d)
          = filter (\<lambda>e. snd e = k) (sort_key snd ?d)"
    by (rule filter_cong) (auto simp: snd_fst)
  also have "\<dots> = filter (\<lambda>e. snd e = k) ?d"
    by (rule sort_key_stable)
  finally have eq: "filter ?P (map fst (sort_key snd ?d))
          = map fst (filter (\<lambda>e. snd e = k) ?d)" .
  have "subseq (map fst (filter (\<lambda>e. snd e = k) ?d)) (map fst ?d)"
    by (rule subseq_map) simp
  moreover have "subseq (map fst ?d) (keys cfg)"
    by (simp add: dict_n_matched_filter o_def)
  ultimately have "subseq (filter ?P (map fst (sort_key snd ?d))) (keys cfg)"
    unfolding eq by (rule subseq_order.order_trans)
  moreover have "subseq (filter ?P (get_best_bundles_by_category ls cl cat cfg tut en))
                   (filter ?P (map fst (sort_key snd ?d)))"
    unfolding by_category_cover by (rule subseq_filter) (rule spec_cover_subseq)
  ultimately show ?thesis
    using subseq_order.order_trans by blast
qed

lemma sorted_candidates:
  "sorted (map (\<lambda>b. n_matched (getitem cfg b))
             (map fst (sort_key snd (dict_n_matched ls cat cfg tut en))))"
proof -
  let ?d = "dict_n_matched ls cat cfg tut en"
  have "\<And>e. e \<in> set (sort_key snd ?d) \<Longrightarrow> n_matched (getitem cfg (fst e)) = snd e"
    by (auto simp: dict_n_matched_filter)
  then have eq: "map (\<lambda>e. n_matched (getitem cfg (fst e))) (sort_key snd ?d)
          = map snd (sort_key snd ?d)"
    by (intro map_cong) simp_all
  show ?thesis
    by (simp only: map_map o_def eq sorted_sort_key)
qed

lemma candidates_permuted:
  "mset (map fst (sort_key snd (dict_n_matched ls cat cfg tut en)))
     = mset (filter (\<lambda>b. category (getitem cfg b) = cat \<and> get_tutorial (getitem cfg b) = tut
                          \<and> check_disabled_by_opt ls (getitem cfg b) en \<noteq> [''all''])
               (keys cfg))"
proof -
  have "mset (map fst (sort_key snd (dict_n_matched ls cat cfg tut en)))
          = image_mset fst (mset (sort_key snd (dict_n_matched ls cat cfg tut en)))"
    by simp
  also have "\<dots> = mset (map fst (dict_n_matched ls cat cfg tut en))"
    by simp
  finally show ?thesis by (simp add: dict_n_matched_filter o_def)
qed

text \<open>
  No name is selected twice when the catalog is a dict: within a category the candidates
  are different names, and a bundle has one category.
\<close>

lemma spec_cover_distinct: "distinct cs \<Longrightarrow> distinct (spec_cover cov cs R)"
proof (induction cs arbitrary: R)
  case Nil
  then show ?case by simp
next
  case (Cons c cs)
  then have "c \<notin> set (spec_cover cov cs R')" for R'
    using spec_cover_set[of cov cs R'] by auto
  with Cons show ?case by (simp add: Let_def)
qed

lemma by_category_distinct:
  assumes "distinct (keys cfg)"
  shows "distinct (get_best_bundles_by_category ls cl cat cfg tut en)"
proof -
  let ?names = "map fst (sort_key snd (dict_n_matched ls cat cfg tut en))"
  have "distinct (filter (\<lambda>b. category (getitem cfg b) = cat \<and> get_tutorial (getitem cfg b) = tut
                          \<and> check_disabled_by_opt ls (getitem cfg b) en \<noteq> [''all''])
               (keys cfg))"
    using assms by simp
  then have "distinct ?names"
    using mset_eq_imp_distinct_iff[OF candidates_permuted[of ls cat cfg tut en]] by simp
  then show ?thesis
    unfolding by_category_cover by (rule spec_cover_distinct)
qed

lemma by_category_category:
  "n \<in> set (get_best_bundles_by_category ls cl cat cfg tut en)
   \<Longrightarrow> category (getitem cfg n) = cat"
  using by_category_sub[of n ls cl cat cfg tut en] by (simp add: dict_n_matched_iff)

lemma distinct_concat_disjoint:
  assumes "distinct cs" "\<And>c. distinct (f c)"
    and "\<And>c c' x. x \<in> set (f c) \<Longrightarrow> x \<in> set (f c') \<Longrightarrow> c = c'"
  shows "distinct (concat (map f cs))"
  using assms(1)
proof (induction cs)
  case Nil
  then show ?case by simp
next
  case (Cons c cs)
  then have "c \<notin> set cs" "distinct (concat (map f cs))" by simp_all
  moreover have "set (f c) \<inter> (\<Union>c' \<in> set cs. set (f c')) = {}"
    using assms(3) \<open>c \<notin> set cs\<close> by blast
  ultimately show ?case using assms(2) by simp
qed

lemma select_distinct:
  assumes "set_listing ls" "distinct (keys cfg)"
  shows "distinct (fst (get_best_bundles ls cl cfg tut en))"
  unfolding select_concat
proof (rule distinct_concat_disjoint)
  show "distinct (ls (map (\<lambda>conf. category (getitem cfg conf)) (keys cfg)))"
    using assms(1) by (simp add: set_listing_def)
next
  fix c
  show "distinct (get_best_bundles_by_category ls cl c (identify_matched cl cfg) tut en)"
    by (rule by_category_distinct) (simp add: keys_identify_matched assms(2))
next
  fix c c' x
  assume "x \<in> set (get_best_bundles_by_category ls cl c (identify_matched cl cfg) tut en)"
    and "x \<in> set (get_best_bundles_by_category ls cl c' (identify_matched cl cfg) tut en)"
  then show "c = c'" using by_category_category by blast
qed

section \<open>Claims on the selection\<close>

text \<open>
  C1. For every catalog, list of requested countries, category, tutorial mode and option
  set, the selection of one category goes through its candidates in ascending order of
  \<^verbatim>\<open>n_matched\<close>: the list \<open>names\<close> it iterates is a permutation of the candidate names and
  is sorted by \<^verbatim>\<open>n_matched\<close>. Starting from the set of the requested countries it takes
  each candidate's countries within what remains, appends the name and removes those
  countries exactly when there are any, and goes on to the next candidate otherwise: the
  result is the specification's recursion on \<open>names\<close>, and the candidate at position \<open>i\<close> is
  in the result exactly when it has a requested country that no earlier candidate has.
\<close>

theorem by_category_iterates_sorted_candidates:
  fixes cfg :: catalog and ls cat tut en
  defines "cov \<equiv> (\<lambda>b. set (countries (getitem cfg b)))"
  defines "names \<equiv> map fst (sort_key snd (dict_n_matched ls cat cfg tut en))"
  shows "mset names
           = mset (filter (\<lambda>b. category (getitem cfg b) = cat
                                \<and> get_tutorial (getitem cfg b) = tut
                                \<and> check_disabled_by_opt ls (getitem cfg b) en \<noteq> [''all''])
                     (keys cfg))
    \<and> sorted (map (\<lambda>b. n_matched (getitem cfg b)) names)
    \<and> get_best_bundles_by_category ls country_list cat cfg tut en
        = spec_cover cov names (set country_list)
    \<and> get_best_bundles_by_category ls country_list cat cfg tut en
        = map (\<lambda>i. names ! i)
            (filter (\<lambda>i. cov (names ! i)
                         \<inter> (set country_list - \<Union>(cov ` set (take i names))) \<noteq> {})
               [0..<length names])"
proof -
  have run: "get_best_bundles_by_category ls country_list cat cfg tut en
        = spec_cover cov names (set country_list)"
    unfolding names_def cov_def by (rule by_category_cover)
  have "get_best_bundles_by_category ls country_list cat cfg tut en
        = map (\<lambda>i. names ! i)
            (filter (\<lambda>i. cov (names ! i)
                         \<inter> (set country_list - \<Union>(cov ` set (take i names))) \<noteq> {})
               [0..<length names])"
    unfolding run by (rule spec_cover_closed)
  moreover have "sorted (map (\<lambda>b. n_matched (getitem cfg b)) names)"
    unfolding names_def by (rule sorted_candidates)
  moreover have "mset names
           = mset (filter (\<lambda>b. category (getitem cfg b) = cat
                                \<and> get_tutorial (getitem cfg b) = tut
                                \<and> check_disabled_by_opt ls (getitem cfg b) en \<noteq> [''all''])
                     (keys cfg))"
    unfolding names_def by (rule candidates_permuted)
  ultimately show ?thesis using run by blast
qed

text \<open>
  C2, as the code has it. The sort has one key, \<^verbatim>\<open>n_matched\<close>, and is stable: the selected
  bundles of a category that share a value of \<^verbatim>\<open>n_matched\<close> stand in the order of the
  catalog, whatever their names. For the two bundles of the sample scenario, requested
  \<^verbatim>\<open>[MA, FR]\<close> and tutorial false, the selection is \<^verbatim>\<open>[common_africa, common_europe]\<close> when
  the catalog lists \<^verbatim>\<open>common_africa\<close> first and \<^verbatim>\<open>[common_europe, common_africa]\<close> when it lists
  \<^verbatim>\<open>common_europe\<close> first.
\<close>

theorem ties_in_catalog_order:
  assumes "set_listing ls"
  shows "subseq (filter (\<lambda>b. n_matched (getitem cfg b) = k)
                   (get_best_bundles_by_category ls cl cat cfg tut en))
                (keys cfg)
     \<and> fst (get_best_bundles ls [''MA'', ''FR''] catalog_africa_first False en)
          = [''common_africa'', ''common_europe'']
     \<and> fst (get_best_bundles ls [''MA'', ''FR''] catalog_europe_first False en)
          = [''common_europe'', ''common_africa'']"
proof -
  have c: "ls [''common'', ''common''] = [''common'']"
    by (rule listing_one_value[OF assms]) simp
  have "fst (get_best_bundles ls [''MA'', ''FR''] catalog_africa_first False en)
          = [''common_africa'', ''common_europe'']"
    by (simp add: eval_defs sample_defs c)
  moreover have "fst (get_best_bundles ls [''MA'', ''FR''] catalog_europe_first False en)
          = [''common_europe'', ''common_africa'']"
    by (simp add: eval_defs sample_defs c)
  ultimately show ?thesis using ties_keep_catalog_order by blast
qed

theorem ties_in_catalog_order_witness:
  "set_listing remdups
   \<and> subseq (filter (\<lambda>b. n_matched (getitem (identify_matched [''MA'', ''FR'']
                                              catalog_europe_first) b) = 1)
               (get_best_bundles_by_category remdups [''MA'', ''FR''] ''common''
                  (identify_matched [''MA'', ''FR''] catalog_europe_first) False []))
             (keys (identify_matched [''MA'', ''FR''] catalog_europe_first))
   \<and> fst (get_best_bundles remdups [''MA'', ''FR''] catalog_africa_first False [])
          = [''common_africa'', ''common_europe'']"
  using ties_in_catalog_order[OF set_listing_remdups,
          of "identify_matched [''MA'', ''FR''] catalog_europe_first" 1
             "[''MA'', ''FR'']" "''common''" False "[]"]
  by (simp add: set_listing_remdups)

text \<open>
  C2, as the claim states it, fails: with \<^verbatim>\<open>common_europe\<close> listed first in the catalog both
  bundles match one requested country, and the selection is
  \<^verbatim>\<open>[common_europe, common_africa]\<close>, not the order of the names.
\<close>

theorem tie_break_counterexample:
  "fst (get_best_bundles remdups [''MA'', ''FR''] catalog_europe_first False [])
     = [''common_europe'', ''common_africa'']
   \<and> fst (get_best_bundles remdups [''MA'', ''FR''] catalog_europe_first False [])
     \<noteq> [''common_africa'', ''common_europe'']
   \<and> n_matched (getitem (snd (get_best_bundles remdups [''MA'', ''FR'']
                                catalog_europe_first False [])) ''common_europe'') = 1
   \<and> n_matched (getitem (snd (get_best_bundles remdups [''MA'', ''FR'']
                                catalog_europe_first False [])) ''common_africa'') = 1"
  by (simp add: eval_defs sample_defs)

text \<open>
  C3, as the code has it. The selection is a function of its inputs and of the iteration
  order of the set of categories. The bundles of one category and their order do not depend
  on that order; the result is the concatenation of the categories' lists in the order the
  set is iterated; so two iteration orders give the same bundles, each as often, and the
  same annotated catalog, but not always the same list.
\<close>

theorem select_up_to_category_order:
  assumes "set_listing ls1" "set_listing ls2"
  shows "get_best_bundles_by_category ls1 cl cat cfg tut en
           = get_best_bundles_by_category ls2 cl cat cfg tut en
     \<and> fst (get_best_bundles ls1 cl cfg tut en)
           = concat (map (\<lambda>cat. get_best_bundles_by_category ls1 cl cat
                                   (identify_matched cl cfg) tut en)
                      (ls1 (map (\<lambda>conf. category (getitem cfg conf)) (keys cfg))))
     \<and> mset (fst (get_best_bundles ls1 cl cfg tut en))
           = mset (fst (get_best_bundles ls2 cl cfg tut en))
     \<and> snd (get_best_bundles ls1 cl cfg tut en) = snd (get_best_bundles ls2 cl cfg tut en)"
proof -
  let ?cats = "map (\<lambda>conf. category (getitem cfg conf)) (keys cfg)"
  have "mset (fst (get_best_bundles ls1 cl cfg tut en))
          = mset (fst (get_best_bundles ls2 cl cfg tut en))"
    unfolding select_concat mset_concat_map
    using listing_mset[OF assms, of ?cats] by_category_listing[OF assms] by simp
  moreover have "snd (get_best_bundles ls1 cl cfg tut en)
                   = snd (get_best_bundles ls2 cl cfg tut en)"
    by (simp add: get_best_bundles_def Let_def)
  ultimately show ?thesis
    using by_category_listing[OF assms] select_concat by blast
qed

theorem select_up_to_category_order_witness:
  "set_listing remdups \<and> set_listing rev_listing
   \<and> mset (fst (get_best_bundles remdups [''MA''] catalog_two_categories False []))
       = mset [''cutouts_africa'', ''common_africa'']
   \<and> mset (fst (get_best_bundles rev_listing [''MA''] catalog_two_categories False []))
       = mset [''cutouts_africa'', ''common_africa'']"
  using select_up_to_category_order[OF set_listing_remdups set_listing_rev_listing,
          of "[''MA'']" "''common''" catalog_two_categories False "[]"]
  by (simp add: set_listing_remdups set_listing_rev_listing rev_listing_def eval_defs
        sample_defs)

text \<open>
  C3, as the claim states it, fails: for a catalog with one bundle in each of two
  categories, two iteration orders of the set of categories give two different lists.
\<close>

theorem select_category_order_counterexample:
  "set_listing remdups \<and> set_listing rev_listing
   \<and> fst (get_best_bundles remdups [''MA''] catalog_two_categories False [])
       = [''common_africa'', ''cutouts_africa'']
   \<and> fst (get_best_bundles rev_listing [''MA''] catalog_two_categories False [])
       = [''cutouts_africa'', ''common_africa'']
   \<and> fst (get_best_bundles remdups [''MA''] catalog_two_categories False [])
       \<noteq> fst (get_best_bundles rev_listing [''MA''] catalog_two_categories False [])"
  by (simp add: set_listing_remdups set_listing_rev_listing rev_listing_def eval_defs
        sample_defs)

text \<open>
  C4. Every name the selection returns is a bundle of the catalog whose tutorial flag
  equals the requested mode as a truth value, a bundle with no \<^verbatim>\<open>tutorial\<close> field counting
  as not a tutorial.
\<close>

theorem select_respects_tutorial:
  assumes "n \<in> set (fst (get_best_bundles ls country_list cfg tut en))"
  shows "n \<in> set (keys cfg)
         \<and> (case tutorial (getitem cfg n) of None \<Rightarrow> \<not> tut | Some v \<Rightarrow> v = tut)"
  using select_member[OF assms] by (auto simp: get_tutorial_def split: option.splits)

theorem select_respects_tutorial_witness:
  "''tutorial_data''
     \<in> set (fst (get_best_bundles remdups [''MA'', ''FR''] catalog_with_tutorial True []))
   \<and> ''tutorial_data'' \<in> set (keys catalog_with_tutorial)
   \<and> tutorial (getitem catalog_with_tutorial ''tutorial_data'') = Some True"
  using select_respects_tutorial[of "''tutorial_data''" remdups "[''MA'', ''FR'']"
          catalog_with_tutorial True "[]"]
  by (simp add: eval_defs sample_defs)

text \<open>
  C5. The check of the code answers \<^verbatim>\<open>["all"]\<close> exactly when the specification's gate calls
  the bundle fully disabled, that is when \<^verbatim>\<open>all\<close> is in the union of the disabled-output
  lists of its active options; no name the selection returns is a fully disabled bundle,
  whatever countries it has; and a bundle with no \<^verbatim>\<open>disable_by_opt\<close> field gets the empty
  answer and is not disabled.
\<close>

theorem option_gate:
  assumes "set_listing ls"
  shows "(check_disabled_by_opt ls b en = [''all''] \<longleftrightarrow> spec_is_fully_disabled b en)
     \<and> (spec_is_fully_disabled (getitem cfg n) en
          \<longrightarrow> n \<notin> set (fst (get_best_bundles ls cl cfg tut en)))
     \<and> (disable_by_opt b' = None
          \<longrightarrow> check_disabled_by_opt ls b' en = [] \<and> \<not> spec_is_fully_disabled b' en)"
proof -
  have "spec_is_fully_disabled (getitem cfg n) en
          \<longrightarrow> n \<notin> set (fst (get_best_bundles ls cl cfg tut en))"
    using select_member[of n ls cl cfg tut en] fully_disabled_imp[of "getitem cfg n" en ls]
    by blast
  moreover have "disable_by_opt b' = None
          \<longrightarrow> check_disabled_by_opt ls b' en = [] \<and> \<not> spec_is_fully_disabled b' en"
    by (simp add: check_disabled_by_opt_def spec_is_fully_disabled_def)
  ultimately show ?thesis using check_disabled_iff[OF assms] by blast
qed

theorem option_gate_witness:
  "set_listing remdups
   \<and> check_disabled_by_opt remdups cutouts_disabled [(''build_cutout'', True)] = [''all'']
   \<and> spec_is_fully_disabled cutouts_disabled [(''build_cutout'', True)]
   \<and> spec_is_fully_disabled (getitem catalog_with_disabled ''cutouts_africa'')
        [(''build_cutout'', True)]
   \<and> ''cutouts_africa''
        \<notin> set (fst (get_best_bundles remdups [''MA''] catalog_with_disabled False
                       [(''build_cutout'', True)]))
   \<and> disable_by_opt common_africa = None
   \<and> check_disabled_by_opt remdups common_africa [(''build_cutout'', True)] = []
   \<and> \<not> spec_is_fully_disabled common_africa [(''build_cutout'', True)]"
  using option_gate[OF set_listing_remdups, of cutouts_disabled "[(''build_cutout'', True)]"
          catalog_with_disabled "''cutouts_africa''" "[''MA'']" False common_africa]
  by (simp add: set_listing_remdups spec_is_fully_disabled_def sample_defs getitem_def
        enabled_def)

text \<open>
  C6. With an empty list of requested countries the selection is the empty list, for every
  catalog, tutorial mode, option set and iteration order of the set of categories: the
  function returns that value and raises nothing.
\<close>

theorem select_no_countries:
  "fst (get_best_bundles ls [] config_bundles tut config_enable) = []"
  by (simp add: get_best_bundles_def Let_def foldl_extend_no_countries)

section \<open>Lemmas on the parsing of the shared-drive link\<close>

text \<open>The pieces of a split are one more than the separators.\<close>

lemma length_split_seps: "length (split_seps s) = Suc (length (filter is_sep s))"
proof (induction s)
  case Nil
  then show ?case by simp
next
  case (Cons c cs)
  then have "split_seps cs \<noteq> []" by auto
  then obtain piece pieces where "split_seps cs = piece # pieces"
    by (cases "split_seps cs") auto
  with Cons show ?case by auto
qed

text \<open>
  The split at the marker gives the string alone, or the text before and after a separator
  followed by \<^verbatim>\<open>view\<close>.
\<close>

lemma split_view_cases:
  "split_view url = [url]
   \<or> (\<exists>p c s. is_sep c \<and> url = p @ c # ''view'' @ s \<and> split_view url = [p, s])"
proof (induction url)
  case Nil
  then show ?case by simp
next
  case (Cons c cs)
  show ?case
  proof (cases "is_sep c \<and> take 4 cs = ''view''")
    case True
    then have "c # cs = [] @ c # ''view'' @ drop 4 cs"
      by (metis append_Nil append_take_drop_id)
    with True show ?thesis by auto
  next
    case False
    from Cons show ?thesis
    proof
      assume "split_view cs = [cs]"
      with False show ?thesis by auto
    next
      assume "\<exists>p d s. is_sep d \<and> cs = p @ d # ''view'' @ s \<and> split_view cs = [p, s]"
      then obtain p d s where "is_sep d" "cs = p @ d # ''view'' @ s" "split_view cs = [p, s]"
        by blast
      then have "is_sep d \<and> c # cs = (c # p) @ d # ''view'' @ s
                   \<and> split_view (c # cs) = [c # p, s]"
        using False by auto
      then show ?thesis by blast
    qed
  qed
qed

section \<open>Lemmas on the download loop\<close>

lemmas run_defs = sample_run_def post_bundle_def post_bundle_popped_def broken_bundle_def
  gdrive_bundle_def with_urls_def mk_bundle_def sample_globals_def sample_env_def
  download_and_unzip_gdrive_def download_and_unzip_post_def finish_def seq_def skip_def
  remove_if_exists_def get_unzip_def py_str_def is_sep_def getitem_def keys_def Let_def

lemma attempts_of_append [simp]:
  "attempts_of b (xs @ ys) = attempts_of b xs @ attempts_of b ys"
  by (induction b xs rule: attempts_of.induct) simp_all

lemma attempts_of_own: "attempts_of b (map (\<lambda>(h, r). Attempt b h r) att) = att"
  by (induction att) auto

lemma attempts_of_other:
  "b' \<noteq> b \<Longrightarrow> attempts_of b (map (\<lambda>(h, r). Attempt b' h r) att) = []"
  by (induction att) auto

lemma failed_not_attempt: "Failed b \<notin> set (map (\<lambda>(h, r). Attempt b' h r) att)"
  by (induction att) auto

lemma getitem_frame: "map_of d' k = map_of d k \<Longrightarrow> getitem d' k = getitem d k"
  by (simp add: getitem_def)

text \<open>
  The inner loop adds attempts for its own bundle only, as the fallback policy asks, and
  writes no other bundle of the catalog.
\<close>

lemma try_hosts_trace:
  assumes "try_hosts g root dp b hosts s = (ok, s')"
  shows "\<exists>att. trace s' = trace s @ map (\<lambda>(h, r). Attempt b h r) att
            \<and> sources_tried hosts att (\<not> ok)
            \<and> (\<forall>b'. b' \<noteq> b \<longrightarrow> map_of (bundles s') b' = map_of (bundles s) b')"
  using assms
proof (induction hosts arbitrary: s)
  case Nil
  then show ?case by (auto simp: sources_tried_def)
next
  case (Cons host hosts)
  show ?case
  proof (cases "g (''download_and_unzip_'' @ host)")
    case None
    let ?s1 = "s\<lparr>trace := trace s @ [Attempt b host (Inl KeyError)]\<rparr>"
    from Cons.prems None have "try_hosts g root dp b hosts ?s1 = (ok, s')" by simp
    from Cons.IH[OF this] obtain att where
      t: "trace s' = trace ?s1 @ map (\<lambda>(h, r). Attempt b h r) att"
      and st: "sources_tried hosts att (\<not> ok)"
      and fr: "\<forall>b'. b' \<noteq> b \<longrightarrow> map_of (bundles s') b' = map_of (bundles ?s1) b'" by blast
    let ?att = "(host, Inl KeyError) # att"
    have "trace s' = trace s @ map (\<lambda>(h, r). Attempt b h r) ?att" using t by simp
    moreover have "sources_tried (host # hosts) ?att (\<not> ok)"
      using st by (cases att) (auto simp: sources_tried_def split: if_splits)
    ultimately show ?thesis using fr by (intro exI[of _ ?att]) simp
  next
    case (Some d)
    obtain r config' w' where
      run: "d (getitem (bundles s) b) root dp (world s) = (r, config', w')"
      by (cases "d (getitem (bundles s) b) root dp (world s)") auto
    let ?s1 = "s\<lparr>bundles := AList.update b config' (bundles s), world := w',
                   trace := trace s @ [Attempt b host r]\<rparr>"
    have fr1: "\<forall>b'. b' \<noteq> b \<longrightarrow> map_of (bundles ?s1) b' = map_of (bundles s) b'"
      by (simp add: update_conv')
    show ?thesis
    proof (cases "r = Inr True")
      case True
      with Cons.prems Some run have "ok" "s' = ?s1" by (auto simp: Let_def)
      then have "trace s' = trace s @ map (\<lambda>(h, r). Attempt b h r) [(host, r)]" by simp
      moreover have "sources_tried (host # hosts) [(host, r)] (\<not> ok)"
        using True \<open>ok\<close> by (simp add: sources_tried_def)
      ultimately show ?thesis
        using fr1 \<open>s' = ?s1\<close> by (intro exI[of _ "[(host, r)]"]) simp
    next
      case False
      with Cons.prems Some run have "try_hosts g root dp b hosts ?s1 = (ok, s')"
        by (simp add: Let_def)
      from Cons.IH[OF this] obtain att where
        t: "trace s' = trace ?s1 @ map (\<lambda>(h, r). Attempt b h r) att"
        and st: "sources_tried hosts att (\<not> ok)"
        and fr: "\<forall>b'. b' \<noteq> b \<longrightarrow> map_of (bundles s') b' = map_of (bundles ?s1) b'"
        by blast
      let ?att = "(host, r) # att"
      have "trace s' = trace s @ map (\<lambda>(h, r). Attempt b h r) ?att" using t by simp
      moreover have "sources_tried (host # hosts) ?att (\<not> ok)"
        using st False by (cases att) (auto simp: sources_tried_def split: if_splits)
      ultimately show ?thesis using fr fr1 by (intro exI[of _ ?att]) simp
    qed
  qed
qed

text \<open>The loop leaves alone what belongs to a bundle it is not asked to download.\<close>

lemma download_loop_other:
  assumes "b \<notin> set bs"
  shows "attempts_of b (trace (download_loop g root dp bs s)) = attempts_of b (trace s)
       \<and> (Failed b \<in> set (trace (download_loop g root dp bs s)) \<longleftrightarrow> Failed b \<in> set (trace s))
       \<and> map_of (bundles (download_loop g root dp bs s)) b = map_of (bundles s) b"
  using assms
proof (induction bs arbitrary: s)
  case Nil
  then show ?case by simp
next
  case (Cons c bs)
  then have ne: "c \<noteq> b" and nin: "b \<notin> set bs" by auto
  let ?hosts = "keys (urls (getitem (bundles s) c))"
  obtain ok s1 where th: "try_hosts g root dp c ?hosts s = (ok, s1)"
    by (cases "try_hosts g root dp c ?hosts s") auto
  from try_hosts_trace[OF th] obtain att where
    t: "trace s1 = trace s @ map (\<lambda>(h, r). Attempt c h r) att"
    and fr: "\<forall>b'. b' \<noteq> c \<longrightarrow> map_of (bundles s1) b' = map_of (bundles s) b'" by blast
  let ?s2 = "if \<not> ok then s1\<lparr>trace := trace s1 @ [Failed c]\<rparr> else s1"
  have step: "download_loop g root dp (c # bs) s = download_loop g root dp bs ?s2"
    using th by simp
  have a: "attempts_of b (trace ?s2) = attempts_of b (trace s)"
    using t ne by (simp add: attempts_of_other)
  have f: "Failed b \<in> set (trace ?s2) \<longleftrightarrow> Failed b \<in> set (trace s)"
    using t ne failed_not_attempt[of b c att] by auto
  have m: "map_of (bundles ?s2) b = map_of (bundles s) b"
    using fr ne by simp
  from Cons.IH[OF nin, of ?s2] a f m show ?case unfolding step by simp
qed

lemma download_loop_sources:
  assumes "distinct bs" "b \<in> set bs" "attempts_of b (trace s) = []" "Failed b \<notin> set (trace s)"
  shows "sources_tried (keys (urls (getitem (bundles s) b)))
           (attempts_of b (trace (download_loop g root dp bs s)))
           (Failed b \<in> set (trace (download_loop g root dp bs s)))"
  using assms
proof (induction bs arbitrary: s)
  case Nil
  then show ?case by simp
next
  case (Cons c bs)
  let ?hosts = "keys (urls (getitem (bundles s) c))"
  obtain ok s1 where th: "try_hosts g root dp c ?hosts s = (ok, s1)"
    by (cases "try_hosts g root dp c ?hosts s") auto
  from try_hosts_trace[OF th] obtain att where
    t: "trace s1 = trace s @ map (\<lambda>(h, r). Attempt c h r) att"
    and st: "sources_tried ?hosts att (\<not> ok)"
    and fr: "\<forall>b'. b' \<noteq> c \<longrightarrow> map_of (bundles s1) b' = map_of (bundles s) b'" by blast
  let ?s2 = "if \<not> ok then s1\<lparr>trace := trace s1 @ [Failed c]\<rparr> else s1"
  have step: "download_loop g root dp (c # bs) s = download_loop g root dp bs ?s2"
    using th by simp
  show ?case
  proof (cases "c = b")
    case True
    with Cons.prems have nin: "b \<notin> set bs" by simp
    have a: "attempts_of b (trace ?s2) = att"
      using t True Cons.prems(3) by (simp add: attempts_of_own)
    have f: "Failed b \<in> set (trace ?s2) \<longleftrightarrow> \<not> ok"
      using t True Cons.prems(4) failed_not_attempt[of b b att] by auto
    from download_loop_other[OF nin, of g root dp ?s2] a f st True
    show ?thesis unfolding step by simp
  next
    case False
    with Cons.prems have d: "distinct bs" and m: "b \<in> set bs" by auto
    have a: "attempts_of b (trace ?s2) = []"
      using t False Cons.prems(3) by (simp add: attempts_of_other)
    have f: "Failed b \<notin> set (trace ?s2)"
      using t False Cons.prems(4) failed_not_attempt[of b c att] by auto
    have "map_of (bundles ?s2) b = map_of (bundles s) b"
      using fr False by simp
    then have g: "getitem (bundles ?s2) b = getitem (bundles s) b" by (rule getitem_frame)
    from Cons.IH[OF d m a f] show ?thesis unfolding step g .
  qed
qed

section \<open>Claims on loading and retrieval\<close>

text \<open>
  C7, what the code does at the empty list. The argument is neither a string nor a dict,
  so the loader writes the error record; it raises nothing: the loop over an empty list
  has no step and the list is returned as the loaded catalog.
\<close>

theorem loader_returns_on_empty_list:
  "load_databundle_config create_country_list load_yaml (ArgList [])
     = ([LogError ''Impossible to load the databundle configuration''], Inr (ArgList []))"
  by (simp add: load_databundle_config_def parse_countries_def)

text \<open>Where the loader does raise: a path that does not load, and a value with no loop.\<close>

lemma loader_unloadable_path:
  "load_yaml path = Inl e \<Longrightarrow>
   load_databundle_config create_country_list load_yaml (ArgStr path) = ([], Inl e)"
  by (simp add: load_databundle_config_def)

lemma loader_unchecked_file_content:
  "load_yaml path = Inr (ArgList []) \<Longrightarrow>
   load_databundle_config create_country_list load_yaml (ArgStr path) = ([], Inr (ArgList []))"
  by (simp add: load_databundle_config_def parse_countries_def)

lemma loader_not_iterable:
  "config = ArgNone \<or> config = ArgInt i \<Longrightarrow>
   snd (load_databundle_config create_country_list load_yaml config) = Inl TypeError"
  by (auto simp: load_databundle_config_def parse_countries_def)

text \<open>
  C8. In a run from an empty trace over bundles to download that are pairwise different,
  take any bundle \<open>b\<close> of them and the hosts its \<^verbatim>\<open>urls\<close> declare. The hosts tried for \<open>b\<close> are
  the first ones of that declaration, in its order. An attempt that returned \<^verbatim>\<open>False\<close> or
  raised is followed by the next host: no attempt but the last returned \<^verbatim>\<open>True\<close>, and the
  loop is a total function, so no exception of an attempt leaves it. If \<open>b\<close> is not marked
  failed its last attempt returned \<^verbatim>\<open>True\<close> and no host after it was tried. If \<open>b\<close> is marked
  failed every host was tried and none returned \<^verbatim>\<open>True\<close>. This holds for every \<open>b\<close>, whatever
  happened to the bundles before it.
\<close>

theorem download_loop_fallback:
  assumes "distinct bundles_to_download" "b \<in> set bundles_to_download" "trace s = []"
  shows "sources_tried (keys (urls (getitem (bundles s) b)))
           (attempts_of b (trace (download_loop g root dp bundles_to_download s)))
           (Failed b \<in> set (trace (download_loop g root dp bundles_to_download s)))"
  using download_loop_sources[OF assms(1,2), of s g root dp] assms(3) by simp

theorem download_loop_fallback_witness:
  "distinct [''bundle_a'', ''bundle_b'', ''bundle_c'']
   \<and> ''bundle_b'' \<in> set [''bundle_a'', ''bundle_b'', ''bundle_c'']
   \<and> trace sample_run = []
   \<and> keys (urls (getitem (bundles sample_run) ''bundle_b'')) = [''gdrive'', ''suffixes'']
   \<and> sources_tried [''gdrive'', ''suffixes'']
        (attempts_of ''bundle_b''
          (trace (download_loop (sample_globals [''https://a.example/q/gadm.zip'']) ''/repo''
                    False [''bundle_a'', ''bundle_b'', ''bundle_c''] sample_run)))
        (Failed ''bundle_b''
           \<in> set (trace (download_loop (sample_globals [''https://a.example/q/gadm.zip''])
                           ''/repo'' False [''bundle_a'', ''bundle_b'', ''bundle_c'']
                           sample_run)))
   \<and> trace (download_loop (sample_globals [''https://a.example/q/gadm.zip'']) ''/repo'' False
               [''bundle_a'', ''bundle_b'', ''bundle_c''] sample_run)
       = [Attempt ''bundle_a'' ''post'' (Inl OSError),
          Attempt ''bundle_a'' ''gdrive'' (Inr True),
          Attempt ''bundle_b'' ''gdrive'' (Inr False),
          Attempt ''bundle_b'' ''suffixes'' (Inl KeyError),
          Failed ''bundle_b'',
          Attempt ''bundle_c'' ''gdrive'' (Inr True)]"
  using download_loop_fallback[of "[''bundle_a'', ''bundle_b'', ''bundle_c'']" "''bundle_b''"
          sample_run "sample_globals [''https://a.example/q/gadm.zip'']" "''/repo''" False]
  by (simp add: run_defs)

text \<open>
  C9, what the code does. One call of the retrieval function of the \<^verbatim>\<open>post\<close> source, here
  without download, returns \<^verbatim>\<open>True\<close> and leaves the bundle without the \<^verbatim>\<open>url\<close> entry of
  \<^verbatim>\<open>urls.post\<close>; a second call on the bundle as left raises KeyError; and after the download
  loop has tried the \<^verbatim>\<open>post\<close> source of a bundle the catalog holds the bundle without that
  entry.
\<close>

theorem post_attempt_removes_url:
  "download_and_unzip_post env post_bundle rootpath False disable_progress w
     = (Inr True, post_bundle_popped, w)
   \<and> download_and_unzip_post env post_bundle_popped rootpath False disable_progress w
     = (Inl KeyError, post_bundle_popped, w)
   \<and> getitem (bundles (download_loop (sample_globals [''https://a.example/q/gadm.zip''])
                          ''/repo'' False [''bundle_a''] sample_run)) ''bundle_a''
     = post_bundle_popped"
  by (simp add: run_defs)

text \<open>The same for every bundle with a \<^verbatim>\<open>post\<close> source, with or without download.\<close>

lemma post_pops_url:
  assumes "map_of (urls config) ''post'' = Some (PostData d)" "map_of d ''url'' = Some url"
  shows "fst (snd (download_and_unzip_post env config rootpath hot_run dp w))
           = config\<lparr>urls := AList.update ''post'' (PostData (AList.delete ''url'' d))
                               (urls config)\<rparr>
         \<and> map_of (AList.delete ''url'' d) ''url'' = None"
  using assms
  by (simp add: download_and_unzip_post_def Let_def finish_def delete_conv'
           split: prod.splits option.splits)

text \<open>
  C10. Take a bundle whose \<^verbatim>\<open>gdrive\<close> entry is a URL string that passes both checks of the
  function: the split at the \<^verbatim>\<open>view\<close> marker gives two parts and the part before the marker
  has a separator. Called with \<^verbatim>\<open>hot_run=False\<close> in a module that binds no name \<^verbatim>\<open>host\<close>,
  the function returns no truth value: it raises NameError, and changes neither the bundle
  nor the world.
\<close>

theorem gdrive_cold_run_name_error:
  assumes "map_of (urls config) ''gdrive'' = Some (Url url)"
    and "2 \<le> length (split_view url)"
    and "2 \<le> length (split_seps (split_view url ! 0))"
  shows "download_and_unzip_gdrive env None config rootpath False disable_progress w
           = (Inl NameError, config, w)"
  using assms by (simp add: download_and_unzip_gdrive_def py_str_def Let_def)

theorem gdrive_cold_run_name_error_witness:
  "map_of (urls gdrive_bundle) ''gdrive''
     = Some (Url ''https://drive.google.com/file/d/9xYz/view'')
   \<and> 2 \<le> length (split_view ''https://drive.google.com/file/d/9xYz/view'')
   \<and> 2 \<le> length (split_seps (split_view ''https://drive.google.com/file/d/9xYz/view'' ! 0))
   \<and> download_and_unzip_gdrive (sample_env []) None gdrive_bundle ''/repo'' False False []
        = (Inl NameError, gdrive_bundle, [])"
  using gdrive_cold_run_name_error[of gdrive_bundle
          "''https://drive.google.com/file/d/9xYz/view''" "sample_env []" "''/repo''" False "[]"]
  by (simp add: gdrive_bundle_def with_urls_def mk_bundle_def is_sep_def)

text \<open>
  Inside the loop of the main block the name is bound, and there the same branch writes its
  error record and returns \<^verbatim>\<open>False\<close>; that loop calls the function with \<^verbatim>\<open>hot_run\<close> at its
  default only.
\<close>

lemma gdrive_cold_run_bound_host:
  assumes "map_of (urls config) ''gdrive'' = Some (Url url)"
    and "2 \<le> length (split_view url)"
    and "2 \<le> length (split_seps (split_view url ! 0))"
  shows "download_and_unzip_gdrive env (Some host) config rootpath False disable_progress w
           = (Inr False, config, w)"
  using assms by (simp add: download_and_unzip_gdrive_def py_str_def Let_def)

end
